theory Spec2Isabelle
  imports Complex_Main
begin

section \<open>Values, exceptions and effects\<close>

text \<open>
  A Python \<open>str\<close> is a sequence of Unicode code points and \<open>len\<close> counts code
  points, so a text is a list of code points. Dictionary keys written as literals in the
  source are HOL strings.
\<close>

type_synonym pystr = "nat list"

definition ascii :: "string \<Rightarrow> pystr" where
  "ascii s = map of_char s"

datatype pyval =
    PNone
  | PBool bool
  | PInt int
  | PFloat real
  | PStr pystr
  | PList "pyval list"
  | PDict "string \<Rightarrow> pyval option"

type_synonym pydict = "string \<Rightarrow> pyval option"

type_synonym vector = "real list"

text \<open>
  Exceptions are values. A remote call that fails carries the message \<open>str(e)\<close>;
  a missing dictionary key is \<open>KeyError\<close>, whose text is the quoted key.
\<close>

datatype exn = RemoteError pystr | KeyError string

definition str_exn :: "exn \<Rightarrow> pystr" where
  "str_exn e = (case e of
      RemoteError m \<Rightarrow> m
    | KeyError k \<Rightarrow> ascii ([CHR 0x27] @ k @ [CHR 0x27]))"

text \<open>
  The calls a function makes to its external collaborators (embedding model, random
  generator, remote store) are recorded in order. Output on stdout is not modelled.
\<close>

datatype call =
    EncodeCall pystr
  | RandCall nat
  | RpcCall vector "pystr option" int real
  | InsertCall pydict
  | CountCall "pystr option"

type_synonym 'a io = "call list \<times> (exn + 'a)"

definition return_io :: "'a \<Rightarrow> 'a io" where
  "return_io v = ([], Inr v)"

definition raise_io :: "exn \<Rightarrow> 'a io" where
  "raise_io e = ([], Inl e)"

definition bind_io :: "'a io \<Rightarrow> ('a \<Rightarrow> 'b io) \<Rightarrow> 'b io" where
  "bind_io m f = (case m of
      (tr, Inl e) \<Rightarrow> (tr, Inl e)
    | (tr, Inr v) \<Rightarrow> (case f v of (tr', r) \<Rightarrow> (tr @ tr', r)))"

definition try_except :: "'a io \<Rightarrow> (exn \<Rightarrow> 'a io) \<Rightarrow> 'a io" where
  "try_except body handler = (case body of
      (tr, Inl e) \<Rightarrow> (case handler e of (tr', r) \<Rightarrow> (tr @ tr', r))
    | (tr, Inr v) \<Rightarrow> (tr, Inr v))"

definition perform :: "call \<Rightarrow> (exn + 'a) \<Rightarrow> 'a io" where
  "perform c r = ([c], r)"

section \<open>Store adapter (supabase_client.py)\<close>

text \<open>
  The remote store is a black box: what its three calls answer is a parameter. A response
  carries \<open>data\<close> (a list of rows; \<open>None\<close> and the empty list are both falsy and are
  the empty list here) and, for the count query, the \<open>count\<close> attribute when present.
\<close>

record response =
  data :: "pydict list"
  count_attr :: "pyval option"

record remote_client =
  rpc_match_knowledge_docs :: "vector \<Rightarrow> pystr option \<Rightarrow> real \<Rightarrow> int \<Rightarrow> exn + response"
  table_insert :: "pydict \<Rightarrow> exn + response"
  table_count :: "pystr option \<Rightarrow> exn + response"

record SupabaseManager =
  client :: "remote_client option"

definition is_connected :: "SupabaseManager \<Rightarrow> bool" where
  "is_connected self \<longleftrightarrow> client self \<noteq> None"

definition getitem :: "pydict \<Rightarrow> string \<Rightarrow> pyval io" where
  "getitem d k = (case d k of None \<Rightarrow> raise_io (KeyError k) | Some v \<Rightarrow> return_io v)"

definition or_empty :: "pydict option \<Rightarrow> pydict" where
  "or_empty metadata = (case metadata of
      None \<Rightarrow> Map.empty
    | Some m \<Rightarrow> (if dom m = {} then Map.empty else m))"

definition store_knowledge_chunk ::
  "SupabaseManager \<Rightarrow> pystr \<Rightarrow> vector \<Rightarrow> pystr option \<Rightarrow> pystr \<Rightarrow> int \<Rightarrow> pydict option
     \<Rightarrow> pydict io" where
  "store_knowledge_chunk self content embedding org_id source chunk_index metadata =
    (case client self of
       None \<Rightarrow> return_io
         [''success'' \<mapsto> PBool False, ''error'' \<mapsto> PStr (ascii ''Not connected to Supabase'')]
     | Some cl \<Rightarrow>
         try_except
           (let full_metadata = or_empty metadata;
                full_metadata = full_metadata(''source'' \<mapsto> PStr source);
                full_metadata = full_metadata(''chunk_index'' \<mapsto> PInt chunk_index);
                row = [''content'' \<mapsto> PStr content,
                       ''embedding'' \<mapsto> PList (map PFloat embedding),
                       ''org_id'' \<mapsto> (case org_id of None \<Rightarrow> PNone | Some i \<Rightarrow> PStr i),
                       ''doc_type'' \<mapsto> PStr (ascii ''knowledge_chunk''),
                       ''metadata'' \<mapsto> PDict full_metadata]
            in bind_io (perform (InsertCall row) (table_insert cl row)) (\<lambda>result.
                 (case data result of
                    r # rs \<Rightarrow> bind_io (getitem r ''id'') (\<lambda>i.
                      return_io [''success'' \<mapsto> PBool True, ''id'' \<mapsto> i])
                  | [] \<Rightarrow> return_io
                      [''success'' \<mapsto> PBool False, ''error'' \<mapsto> PStr (ascii ''No data returned'')])))
           (\<lambda>e. return_io [''success'' \<mapsto> PBool False, ''error'' \<mapsto> PStr (str_exn e)]))"

definition semantic_search ::
  "SupabaseManager \<Rightarrow> vector \<Rightarrow> pystr option \<Rightarrow> int \<Rightarrow> real \<Rightarrow> pydict list io" where
  "semantic_search self query_embedding org_id limit threshold =
    (case client self of
       None \<Rightarrow> return_io []
     | Some cl \<Rightarrow>
         try_except
           (bind_io (perform (RpcCall query_embedding org_id limit threshold)
                       (rpc_match_knowledge_docs cl query_embedding org_id threshold limit))
              (\<lambda>result. if data result \<noteq> [] then return_io (data result) else return_io []))
           (\<lambda>e. return_io []))"

definition count_knowledge_chunks :: "SupabaseManager \<Rightarrow> pystr option \<Rightarrow> pyval io" where
  "count_knowledge_chunks self org_id =
    (case client self of
       None \<Rightarrow> return_io (PInt 0)
     | Some cl \<Rightarrow>
         try_except
           (bind_io (perform (CountCall org_id) (table_count cl org_id))
              (\<lambda>result. return_io (case count_attr result of Some n \<Rightarrow> n | None \<Rightarrow> PInt 0)))
           (\<lambda>e. return_io (PInt 0)))"

section \<open>Retrieval (brand_rag.py)\<close>

text \<open>
  \<open>embedder\<close> is the loaded sentence-transformer model (\<open>None\<close> when loading failed);
  what \<open>encode(...).tolist()\<close> answers, or the exception it raises, is a parameter.
  \<open>db\<close> is \<open>None\<close> when the store did not connect at construction.
\<close>

record BrandRAG =
  embedder :: "(pystr \<Rightarrow> exn + vector) option"
  db :: "SupabaseManager option"

text \<open>\<open>np.random.rand(n).tolist()\<close>: the next \<open>n\<close> draws of the generator.\<close>

definition np_random_rand :: "(nat \<Rightarrow> real) \<Rightarrow> nat \<Rightarrow> vector" where
  "np_random_rand rnd n = map rnd [0..<n]"

definition create_embedding :: "BrandRAG \<Rightarrow> (nat \<Rightarrow> real) \<Rightarrow> pystr \<Rightarrow> vector io" where
  "create_embedding self rnd txt =
    (case embedder self of
       None \<Rightarrow> perform (RandCall 384) (Inr (np_random_rand rnd 384))
     | Some encode \<Rightarrow>
         try_except
           (perform (EncodeCall txt) (encode txt))
           (\<lambda>e. perform (RandCall 384) (Inr (np_random_rand rnd 384))))"

definition get_default_examples :: "pyval list" where
  "get_default_examples =
    [PStr (ascii ''Are you still manually pulling data from 5 different tools?\<newline>\<newline>We talked to 200+ startup founders. 73% said they lose 6+ hours per week just gathering basic metrics.\<newline>\<newline>Here's what changed:\<newline>'' @
           [8594] @
           ascii '' One dashboard. All your data.\<newline>'' @
           [8594] @
           ascii '' Zero SQL required.\<newline>'' @
           [8594] @
           ascii '' Insights in minutes, not days.\<newline>\<newline>Try it free for 14 days.''),
     PStr (ascii ''Question for founders: When was the last time you made a product decision based on data vs. a hunch?\<newline>\<newline>Teams that track retention weekly grow 2.3x faster.\<newline>\<newline>You don't need a data team. You need the right tool.''),
     PStr (ascii ''Real talk: Most analytics tools were built for enterprises with data teams.\<newline>\<newline>You're a startup. You need something that works today.\<newline>\<newline>'' @
           [9989] @
           ascii '' Connect in 5 minutes\<newline>'' @
           [9989] @
           ascii '' Pre-built dashboards\<newline>'' @
           [9989] @
           ascii '' Plain English insights'')]"

text \<open>Truthiness of an optional string: \<open>None\<close> and the empty string are falsy.\<close>

definition truthy :: "pystr option \<Rightarrow> bool" where
  "truthy s = (case s of None \<Rightarrow> False | Some t \<Rightarrow> t \<noteq> [])"

text \<open>The slice \<open>xs[:k]\<close>: a negative \<open>k\<close> counts from the end.\<close>

definition slice_to :: "'a list \<Rightarrow> int \<Rightarrow> 'a list" where
  "slice_to xs k = (if 0 \<le> k then take (nat k) xs else take (nat (int (length xs) + k)) xs)"

text \<open>The comprehension \<open>[r['content'] for r in rows]\<close>; a row without the key raises.\<close>

fun contents :: "pydict list \<Rightarrow> pyval list io" where
  "contents [] = return_io []"
| "contents (r # rs) =
     bind_io (getitem r ''content'') (\<lambda>c.
     bind_io (contents rs) (\<lambda>cs. return_io (c # cs)))"

definition retrieve_brand_context ::
  "BrandRAG \<Rightarrow> (nat \<Rightarrow> real) \<Rightarrow> pystr option \<Rightarrow> pystr \<Rightarrow> int \<Rightarrow> bool \<Rightarrow> pyval list io" where
  "retrieve_brand_context self rnd brand_id query top_k include_platform =
    (case db self of
       None \<Rightarrow> return_io get_default_examples
     | Some d \<Rightarrow>
         if \<not> is_connected d then return_io get_default_examples
         else
           try_except
             (bind_io (create_embedding self rnd query) (\<lambda>query_embedding.
              bind_io
                (if truthy brand_id
                 then bind_io (semantic_search d query_embedding brand_id top_k (1/2))
                        (\<lambda>brand_results. return_io ([] @ brand_results))
                 else return_io []) (\<lambda>results.
              bind_io
                (if include_platform \<and> int (length results) < top_k
                 then bind_io
                        (semantic_search d query_embedding None
                           (top_k - int (length results)) (1/2))
                        (\<lambda>platform_results. return_io (results @ platform_results))
                 else return_io results) (\<lambda>results.
              if results \<noteq> [] then contents (slice_to results top_k)
              else return_io get_default_examples))))
             (\<lambda>e. return_io get_default_examples))"

section \<open>Chunking (Process Documents handler, main.py)\<close>

definition replace_nul :: "pystr \<Rightarrow> pystr" where
  "replace_nul s = filter (\<lambda>c. c \<noteq> 0) s"

text \<open>The code points for which \<open>str.isspace\<close> holds; \<open>str.strip()\<close> removes them.\<close>

definition isspace :: "nat \<Rightarrow> bool" where
  "isspace c \<longleftrightarrow>
     (9 \<le> c \<and> c \<le> 13) \<or> (28 \<le> c \<and> c \<le> 32) \<or> c = 133 \<or> c = 160 \<or> c = 5760 \<or>
     (8192 \<le> c \<and> c \<le> 8202) \<or> c = 8232 \<or> c = 8233 \<or> c = 8239 \<or> c = 8287 \<or> c = 12288"

definition strip :: "pystr \<Rightarrow> pystr" where
  "strip s = rev (dropWhile isspace (rev (dropWhile isspace s)))"

text \<open>\<open>s.split('\n\n')\<close>: cut at every occurrence of two line feeds, left to right.\<close>

fun split_nn :: "pystr \<Rightarrow> pystr list" where
  "split_nn [] = [[]]"
| "split_nn [c] = [[c]]"
| "split_nn (c # d # cs) =
     (if c = 10 \<and> d = 10 then [] # split_nn cs
      else (c # hd (split_nn (d # cs))) # tl (split_nn (d # cs)))"

text \<open>
  The text of a document: the text of each page that has some, without its null
  characters, followed by a line feed.
\<close>

fun pages_loop :: "pystr option list \<Rightarrow> pystr \<Rightarrow> pystr" where
  "pages_loop [] full_text = full_text"
| "pages_loop (t # pages) full_text =
     (case t of
        None \<Rightarrow> pages_loop pages full_text
      | Some txt \<Rightarrow>
          if txt \<noteq> [] then pages_loop pages (full_text @ replace_nul (replace_nul txt) @ [10])
          else pages_loop pages full_text)"

definition extract_full_text :: "pystr option list \<Rightarrow> pystr" where
  "extract_full_text pages = pages_loop pages []"

text \<open>Flushing the buffer: lines 174-177 and 180-183.\<close>

definition flush :: "pystr list \<Rightarrow> pystr \<Rightarrow> pystr list" where
  "flush chunks current_chunk =
     (if strip current_chunk \<noteq> [] then
        (let clean = replace_nul (strip current_chunk)
         in if clean \<noteq> [] then chunks @ [clean] else chunks)
      else chunks)"

fun chunk_loop :: "pystr list \<Rightarrow> pystr list \<times> pystr \<Rightarrow> pystr list \<times> pystr" where
  "chunk_loop [] st = st"
| "chunk_loop (para # paragraphs) (chunks, current_chunk) =
     (let para = strip para in
      if para = [] then chunk_loop paragraphs (chunks, current_chunk)
      else if length current_chunk + length para < 500
        then chunk_loop paragraphs (chunks, current_chunk @ para @ [10, 10])
        else chunk_loop paragraphs (flush chunks current_chunk, para @ [10, 10]))"

definition chunk_text :: "pystr \<Rightarrow> pystr list" where
  "chunk_text full_text =
     (case chunk_loop (split_nn full_text) ([], []) of
        (chunks, current_chunk) \<Rightarrow> flush chunks current_chunk)"

section \<open>Observations used by the properties\<close>

text \<open>What a computation returned, when it returned.\<close>

definition returned :: "'a io \<Rightarrow> 'a option" where
  "returned m = (case snd m of Inr v \<Rightarrow> Some v | Inl e \<Rightarrow> None)"

definition calls :: "'a io \<Rightarrow> call list" where
  "calls m = fst m"

definition is_platform_search :: "call \<Rightarrow> bool" where
  "is_platform_search c = (case c of RpcCall q None k th \<Rightarrow> True | _ \<Rightarrow> False)"

definition content_of :: "pydict \<Rightarrow> pyval" where
  "content_of r = (case r ''content'' of Some v \<Rightarrow> v | None \<Rightarrow> PNone)"

definition has_content :: "pydict \<Rightarrow> bool" where
  "has_content r \<longleftrightarrow> r ''content'' \<noteq> None"

text \<open>The metadata of the row handed to the remote insert, when exactly one insert was made.\<close>

definition persisted_metadata :: "call list \<Rightarrow> pyval option" where
  "persisted_metadata tr = (case tr of [InsertCall row] \<Rightarrow> row ''metadata'' | _ \<Rightarrow> None)"

text \<open>Concrete stores and helpers for the examples.\<close>

definition failing_client :: remote_client where
  "failing_client =
     \<lparr> rpc_match_knowledge_docs = (\<lambda>q org th k. Inl (RemoteError (ascii ''timeout''))),
       table_insert = (\<lambda>row. Inl (RemoteError (ascii ''timeout''))),
       table_count = (\<lambda>org. Inl (RemoteError (ascii ''timeout''))) \<rparr>"

definition empty_client :: remote_client where
  "empty_client =
     \<lparr> rpc_match_knowledge_docs = (\<lambda>q org th k. Inr \<lparr>data = [], count_attr = None\<rparr>),
       table_insert = (\<lambda>row. Inr \<lparr>data = [], count_attr = None\<rparr>),
       table_count = (\<lambda>org. Inr \<lparr>data = [], count_attr = None\<rparr>) \<rparr>"

definition row_of :: "string \<Rightarrow> pydict" where
  "row_of s = [''content'' \<mapsto> PStr (ascii s)]"

text \<open>A store with two brand rows and one platform row; inserts answer a row with id 7.\<close>

definition demo_client :: remote_client where
  "demo_client =
     \<lparr> rpc_match_knowledge_docs = (\<lambda>q org th k.
         Inr \<lparr>data = (if org = None then [row_of ''p1''] else [row_of ''b1'', row_of ''b2'']),
              count_attr = None\<rparr>),
       table_insert = (\<lambda>row. Inr \<lparr>data = [[''id'' \<mapsto> PInt 7]], count_attr = None\<rparr>),
       table_count = (\<lambda>org. Inr \<lparr>data = [], count_attr = Some (PInt 3)\<rparr>) \<rparr>"

text \<open>
  A store whose count query answers a response that has the \<open>count\<close> attribute with
  the value \<open>None\<close> (the attribute is an optional integer).
\<close>

definition none_count_client :: remote_client where
  "none_count_client =
     \<lparr> rpc_match_knowledge_docs = (\<lambda>q org th k. Inr \<lparr>data = [], count_attr = None\<rparr>),
       table_insert = (\<lambda>row. Inr \<lparr>data = [], count_attr = None\<rparr>),
       table_count = (\<lambda>org. Inr \<lparr>data = [], count_attr = Some PNone\<rparr>) \<rparr>"

definition demo_rag :: "remote_client \<Rightarrow> BrandRAG" where
  "demo_rag cl = \<lparr> embedder = Some (\<lambda>t. Inr [1 / 2]), db = Some \<lparr>client = Some cl\<rparr> \<rparr>"

text \<open>The rows a search returned (none when it raised, which it never does).\<close>

definition rows_of :: "pydict list io \<Rightarrow> pydict list" where
  "rows_of m = (case returned m of Some rows \<Rightarrow> rows | None \<Rightarrow> [])"

section \<open>Chunking as the specification words it\<close>

text \<open>
  The buffer as the list of paragraphs accumulated so far; as text, each paragraph is
  followed by a blank line.
\<close>

definition buffer_text :: "pystr list \<Rightarrow> pystr" where
  "buffer_text buf = concat (map (\<lambda>p. p @ [10, 10]) buf)"

text \<open>
  Greedy accumulation: when appending the next paragraph would make the buffer length
  reach \<open>maxChunkSize\<close> (the test adds the paragraph's length to the buffer's length before
  the append), the buffer is flushed and a new one starts with that paragraph; the
  remaining buffer is flushed at the end.
\<close>

fun spec_accumulate :: "nat \<Rightarrow> pystr list \<Rightarrow> pystr list \<Rightarrow> pystr list list" where
  "spec_accumulate maxChunkSize buf [] = [buf]"
| "spec_accumulate maxChunkSize buf (p # ps) =
     (if length (buffer_text buf) + length p \<ge> maxChunkSize
      then buf # spec_accumulate maxChunkSize [p] ps
      else spec_accumulate maxChunkSize (buf @ [p]) ps)"

text \<open>The stripped, non-empty paragraphs of a text, split at blank lines.\<close>

definition paragraphs_of :: "pystr \<Rightarrow> pystr list" where
  "paragraphs_of txt = filter (\<lambda>p. p \<noteq> []) (map strip (split_nn txt))"

text \<open>
  Every flushed buffer is stripped of surrounding whitespace and of null characters;
  the chunks that are empty after that are dropped.
\<close>

definition chunk_spec :: "nat \<Rightarrow> pystr \<Rightarrow> pystr list" where
  "chunk_spec maxChunkSize txt =
     filter (\<lambda>c. c \<noteq> [])
       (map (\<lambda>buf. replace_nul (strip (buffer_text buf)))
          (spec_accumulate maxChunkSize [] (paragraphs_of txt)))"

text \<open>\<open>'\n\n'.join(chunks)\<close>: the chunks, separated by blank lines.\<close>

fun join_nn :: "pystr list \<Rightarrow> pystr" where
  "join_nn [] = []"
| "join_nn [c] = c"
| "join_nn (c # d # cs) = c @ [10, 10] @ join_nn (d # cs)"

text \<open>A text that contains a blank-line separator (two adjacent line feeds).\<close>

fun has_nn :: "pystr \<Rightarrow> bool" where
  "has_nn (c # d # cs) = ((c = 10 \<and> d = 10) \<or> has_nn (d # cs))"
| "has_nn cs = False"

text \<open>A text with no whitespace at either end, such as a stripped non-empty paragraph.\<close>

definition tidy :: "pystr \<Rightarrow> bool" where
  "tidy p \<longleftrightarrow> p \<noteq> [] \<and> \<not> isspace (hd p) \<and> \<not> isspace (last p)"

section \<open>Properties\<close>

lemmas io_defs = return_io_def raise_io_def bind_io_def try_except_def perform_def

subsection \<open>Store adapter\<close>



text \<open>
  The safe defaults of the two read operations. \<open>semantic_search\<close> returns the empty
  list, and never an error, when the store is disconnected or the remote call raises.
  \<open>count_knowledge_chunks\<close> returns 0 when the store is disconnected, when the remote
  call raises and when the response has no \<open>count\<close> attribute; when the attribute is
  there, its value is returned as it is. Neither function ever raises.
\<close>

lemma read_operations_defaults:
  "(client self = None \<longrightarrow>
      semantic_search self q org n th = ([], Inr []) \<and>
      count_knowledge_chunks self org = ([], Inr (PInt 0)))
   \<and> (\<forall>cl e. client self = Some cl \<and> rpc_match_knowledge_docs cl q org th n = Inl e \<longrightarrow>
        returned (semantic_search self q org n th) = Some [])
   \<and> (\<exists>rows. returned (semantic_search self q org n th) = Some rows)
   \<and> (\<forall>cl e. client self = Some cl \<and> table_count cl org = Inl e \<longrightarrow>
        returned (count_knowledge_chunks self org) = Some (PInt 0))
   \<and> (\<forall>cl r. client self = Some cl \<and> table_count cl org = Inr r \<and> count_attr r = None \<longrightarrow>
        returned (count_knowledge_chunks self org) = Some (PInt 0))
   \<and> (\<forall>cl r v. client self = Some cl \<and> table_count cl org = Inr r \<and> count_attr r = Some v \<longrightarrow>
        returned (count_knowledge_chunks self org) = Some v)
   \<and> (\<exists>c. returned (count_knowledge_chunks self org) = Some c)"
  by (auto simp: semantic_search_def count_knowledge_chunks_def io_defs returned_def
           split: option.splits sum.splits)

lemma read_operations_defaults_examples:
  "semantic_search \<lparr>client = None\<rparr> [1] None 5 (7/10) = ([], Inr []) \<and>
   count_knowledge_chunks \<lparr>client = None\<rparr> None = ([], Inr (PInt 0)) \<and>
   returned (semantic_search \<lparr>client = Some failing_client\<rparr> [1] None 5 (7/10)) = Some [] \<and>
   returned (count_knowledge_chunks \<lparr>client = Some failing_client\<rparr> None) = Some (PInt 0) \<and>
   returned (count_knowledge_chunks \<lparr>client = Some empty_client\<rparr> None) = Some (PInt 0)"
  using read_operations_defaults [of "\<lparr>client = None\<rparr>" "[1]" None 5 "7/10"]
        read_operations_defaults [of "\<lparr>client = Some failing_client\<rparr>" "[1]" None 5 "7/10"]
        read_operations_defaults [of "\<lparr>client = Some empty_client\<rparr>" "[1]" None 5 "7/10"]
  by (simp add: failing_client_def empty_client_def)

text \<open>
  C8. The claim is that \<open>count_knowledge_chunks\<close> returns 0 on any failure, a missing
  count in the response included, as its sibling paths do and as its return type
  \<open>int\<close> says. The code misses one case: \<open>hasattr(result, 'count')\<close> holds for a
  response whose \<open>count\<close> is \<open>None\<close>, and then \<open>None\<close> is returned, not 0. Here
  the store is connected, the count query raises nothing, and its response carries the
  count \<open>None\<close>.
\<close>

theorem count_knowledge_chunks_none_count:
  "count_knowledge_chunks \<lparr>client = Some none_count_client\<rparr> None
     = ([CountCall None], Inr PNone)
   \<and> returned (count_knowledge_chunks \<lparr>client = Some none_count_client\<rparr> None)
     \<noteq> Some (PInt 0)"
  by (simp add: count_knowledge_chunks_def none_count_client_def io_defs returned_def)

text \<open>
  C10. When \<open>store_knowledge_chunk\<close> succeeds, the metadata of the row it handed to the
  remote insert is the caller's metadata (the empty dictionary for \<open>None\<close>) updated with
  \<open>source\<close> and \<open>chunk_index\<close> set to the arguments: these two keys override what the
  caller supplied, every other key keeps the caller's value, and an empty or absent
  caller metadata gives exactly the two keys.
\<close>

theorem store_knowledge_chunk_metadata:
  assumes "returned (store_knowledge_chunk self content embedding org_id source chunk_index metadata)
             = Some res"
      and "res ''success'' = Some (PBool True)"
      and "supplied = (case metadata of None \<Rightarrow> Map.empty | Some m \<Rightarrow> m)"
  shows "\<exists>full. persisted_metadata
             (calls (store_knowledge_chunk self content embedding org_id source chunk_index metadata))
           = Some (PDict full)
         \<and> full = supplied(''source'' \<mapsto> PStr source, ''chunk_index'' \<mapsto> PInt chunk_index)
         \<and> full ''source'' = Some (PStr source)
         \<and> full ''chunk_index'' = Some (PInt chunk_index)
         \<and> (\<forall>k. k \<noteq> ''source'' \<and> k \<noteq> ''chunk_index'' \<longrightarrow> full k = supplied k)
         \<and> (dom supplied = {} \<longrightarrow>
              full = [''source'' \<mapsto> PStr source, ''chunk_index'' \<mapsto> PInt chunk_index])"
proof -
  have e: "or_empty metadata = supplied"
    using assms(3) by (auto simp: or_empty_def split: option.splits)
  obtain cl where cl: "client self = Some cl"
    using assms(1,2)
    by (cases "client self") (auto simp: store_knowledge_chunk_def returned_def return_io_def)
  show ?thesis
    using cl e
    by (auto simp: store_knowledge_chunk_def calls_def persisted_metadata_def io_defs Let_def
                   getitem_def
             split: sum.splits list.splits prod.splits option.splits)
qed

theorem store_knowledge_chunk_metadata_witness:
  "returned (store_knowledge_chunk \<lparr>client = Some demo_client\<rparr> (ascii ''c'') [1]
       (Some (ascii ''brandA'')) (ascii ''f.pdf'') 2
       (Some [''length'' \<mapsto> PInt 1, ''source'' \<mapsto> PStr (ascii ''old'')]))
     = Some [''success'' \<mapsto> PBool True, ''id'' \<mapsto> PInt 7]
   \<and> (\<exists>full. persisted_metadata (calls (store_knowledge_chunk \<lparr>client = Some demo_client\<rparr>
         (ascii ''c'') [1] (Some (ascii ''brandA'')) (ascii ''f.pdf'') 2
         (Some [''length'' \<mapsto> PInt 1, ''source'' \<mapsto> PStr (ascii ''old'')])))
       = Some (PDict full)
       \<and> full ''source'' = Some (PStr (ascii ''f.pdf''))
       \<and> full ''chunk_index'' = Some (PInt 2)
       \<and> full ''length'' = Some (PInt 1))"
proof -
  let ?m = "Some [''length'' \<mapsto> PInt 1, ''source'' \<mapsto> PStr (ascii ''old'')]"
  let ?call = "store_knowledge_chunk \<lparr>client = Some demo_client\<rparr> (ascii ''c'') [1]
       (Some (ascii ''brandA'')) (ascii ''f.pdf'') 2 ?m"
  have h1: "returned ?call = Some [''success'' \<mapsto> PBool True, ''id'' \<mapsto> PInt 7]"
    by (simp add: store_knowledge_chunk_def demo_client_def returned_def io_defs Let_def
          getitem_def)
  have h2: "[''success'' \<mapsto> PBool True, ''id'' \<mapsto> PInt 7] ''success'' = Some (PBool True)"
    by simp
  from store_knowledge_chunk_metadata [OF h1 h2 refl] h1 show ?thesis
    by auto
qed

subsection \<open>Embedding and retrieval\<close>

lemma semantic_search_connected:
  "client d = Some cl \<Longrightarrow>
   semantic_search d emb org k th
     = ([RpcCall emb org k th], Inr (rows_of (semantic_search d emb org k th)))"
  by (auto simp: semantic_search_def io_defs rows_of_def returned_def split: sum.splits)

lemma contents_trace: "fst (contents rs) = []"
  by (induction rs) (auto simp: io_defs getitem_def split: option.splits sum.splits prod.splits)

lemma contents_all:
  "\<forall>r\<in>set rs. has_content r \<Longrightarrow> contents rs = ([], Inr (map content_of rs))"
  by (induction rs) (auto simp: io_defs getitem_def has_content_def content_of_def)



text \<open>The shape of a retrieval against a connected store.\<close>

lemma retrieve_connected:
  assumes d: "db self = Some d" and cl: "client d = Some cl"
      and e: "create_embedding self rnd query = (tr0, Inr emb)"
      and b: "brand = (if truthy brand_id
                       then rows_of (semantic_search d emb brand_id top_k (1/2)) else [])"
      and p: "platform = (if include_platform \<and> int (length brand) < top_k
                          then rows_of (semantic_search d emb None (top_k - int (length brand)) (1/2))
                          else [])"
  shows "retrieve_brand_context self rnd brand_id query top_k include_platform
     = (tr0 @ (if truthy brand_id then [RpcCall emb brand_id top_k (1/2)] else [])
            @ (if include_platform \<and> int (length brand) < top_k
               then [RpcCall emb None (top_k - int (length brand)) (1/2)] else []),
        if brand @ platform = [] then Inr get_default_examples
        else (case snd (contents (slice_to (brand @ platform) top_k)) of
                Inr cs \<Rightarrow> Inr cs | Inl ex \<Rightarrow> Inr get_default_examples))"
proof -
  define R where "R = (\<lambda>org k. rows_of (semantic_search d emb org k (1/2)))"
  have s: "\<And>org k. semantic_search d emb org k (1/2) = ([RpcCall emb org k (1/2)], Inr (R org k))"
    unfolding R_def using semantic_search_connected [OF cl] by simp
  have c: "\<And>rs. contents rs = ([], snd (contents rs))"
    using contents_trace by (metis prod.collapse)
  have b': "brand = (if truthy brand_id then R brand_id top_k else [])"
    unfolding R_def by (rule b)
  have p': "platform = (if include_platform \<and> int (length brand) < top_k
                          then R None (top_k - int (length brand)) else [])"
    unfolding R_def by (rule p)
  have step1: "(if truthy brand_id
                 then bind_io (semantic_search d emb brand_id top_k (1/2))
                        (\<lambda>brand_results. return_io ([] @ brand_results))
                 else return_io [])
        = ((if truthy brand_id then [RpcCall emb brand_id top_k (1/2)] else []), Inr brand)"
    by (simp add: s b' io_defs)
  have step2: "(if include_platform \<and> int (length brand) < top_k
                 then bind_io
                        (semantic_search d emb None (top_k - int (length brand)) (1/2))
                        (\<lambda>platform_results. return_io (brand @ platform_results))
                 else return_io brand)
        = ((if include_platform \<and> int (length brand) < top_k
               then [RpcCall emb None (top_k - int (length brand)) (1/2)] else []),
           Inr (brand @ platform))"
    by (simp add: s p' io_defs)
  have step3: "(if brand @ platform \<noteq> [] then contents (slice_to (brand @ platform) top_k)
              else return_io get_default_examples)
        = ([], if brand @ platform = [] then Inr get_default_examples
               else snd (contents (slice_to (brand @ platform) top_k)))"
    using c [of "slice_to (brand @ platform) top_k"] by (simp add: return_io_def)
  have body: "bind_io (create_embedding self rnd query) (\<lambda>query_embedding.
              bind_io
                (if truthy brand_id
                 then bind_io (semantic_search d query_embedding brand_id top_k (1/2))
                        (\<lambda>brand_results. return_io ([] @ brand_results))
                 else return_io []) (\<lambda>results.
              bind_io
                (if include_platform \<and> int (length results) < top_k
                 then bind_io
                        (semantic_search d query_embedding None
                           (top_k - int (length results)) (1/2))
                        (\<lambda>platform_results. return_io (results @ platform_results))
                 else return_io results) (\<lambda>results.
              if results \<noteq> [] then contents (slice_to results top_k)
              else return_io get_default_examples)))
       = (tr0 @ (if truthy brand_id then [RpcCall emb brand_id top_k (1/2)] else [])
            @ (if include_platform \<and> int (length brand) < top_k
               then [RpcCall emb None (top_k - int (length brand)) (1/2)] else []),
          if brand @ platform = [] then Inr get_default_examples
               else snd (contents (slice_to (brand @ platform) top_k)))"
    unfolding e
    apply (subst bind_io_def)
    apply (simp only: prod.case sum.case step1)
    apply (subst bind_io_def)
    apply (simp only: prod.case sum.case step2)
    apply (subst bind_io_def)
    apply (simp only: prod.case sum.case step3)
    apply simp
    done
  show ?thesis
    unfolding retrieve_brand_context_def d option.case is_connected_def cl body
    by (simp add: try_except_def return_io_def split: sum.splits)
qed


lemma create_embedding_shape:
  assumes "returned (create_embedding self rnd query) = Some emb"
  shows "\<exists>tr0. create_embedding self rnd query = (tr0, Inr emb)
           \<and> filter is_platform_search tr0 = []"
  using assms
  by (auto simp: create_embedding_def io_defs returned_def is_platform_search_def
           split: option.splits sum.splits)







text \<open>
  C2. With a connected store, let the accumulator be the rows of the brand-scoped search
  followed by the rows of the platform-scoped search (when that one is made). If the
  accumulator is not empty, the result is the \<open>content\<close> of its first \<open>top_k\<close> rows in that
  order (for \<open>top_k \<ge> 0\<close> and rows that carry a \<open>content\<close> field); if it is empty, the
  result is the list of default examples.
\<close>


theorem retrieve_merge_order:
  assumes "db self = Some d" and "is_connected d"
      and "returned (create_embedding self rnd query) = Some emb"
      and "brand = (if truthy brand_id
                    then rows_of (semantic_search d emb brand_id top_k (1/2)) else [])"
      and "platform = (if include_platform \<and> int (length brand) < top_k
                       then rows_of (semantic_search d emb None (top_k - int (length brand)) (1/2))
                       else [])"
  shows "(brand @ platform \<noteq> [] \<and> 0 \<le> top_k
            \<and> (\<forall>r\<in>set (take (nat top_k) (brand @ platform)). has_content r) \<longrightarrow>
          returned (retrieve_brand_context self rnd brand_id query top_k include_platform)
            = Some (map content_of (take (nat top_k) (brand @ platform))))
       \<and> (brand @ platform = [] \<longrightarrow>
          returned (retrieve_brand_context self rnd brand_id query top_k include_platform)
            = Some get_default_examples)"
proof -
  obtain cl where cl: "client d = Some cl"
    using assms(2) by (auto simp: is_connected_def)
  obtain tr0 where e: "create_embedding self rnd query = (tr0, Inr emb)"
    using create_embedding_shape [OF assms(3)] by blast
  note r = retrieve_connected [OF assms(1) cl e assms(4) assms(5)]
  have c1: "returned (retrieve_brand_context self rnd brand_id query top_k include_platform)
            = Some (map content_of (take (nat top_k) (brand @ platform)))"
    if h: "brand @ platform \<noteq> []" "0 \<le> top_k"
          "\<forall>r\<in>set (take (nat top_k) (brand @ platform)). has_content r"
  proof -
    from h have "\<forall>r\<in>set (slice_to (brand @ platform) top_k). has_content r"
      by (simp add: slice_to_def)
    then have c: "contents (slice_to (brand @ platform) top_k)
                  = ([], Inr (map content_of (take (nat top_k) (brand @ platform))))"
      using contents_all [of "slice_to (brand @ platform) top_k"] h(2)
      by (simp add: slice_to_def)
    show ?thesis
      unfolding r returned_def by (simp only: snd_conv if_not_P [OF h(1)] c sum.case)
  qed
  have c2: "returned (retrieve_brand_context self rnd brand_id query top_k include_platform)
            = Some get_default_examples"
    if "brand @ platform = []"
    using that unfolding r returned_def by simp
  from c1 c2 show ?thesis by blast
qed

theorem retrieve_merge_order_witness:
  "returned (retrieve_brand_context (demo_rag demo_client) (\<lambda>i. 0)
      (Some (ascii ''brandA'')) (ascii ''q'') 3 True)
       = Some [PStr (ascii ''b1''), PStr (ascii ''b2''), PStr (ascii ''p1'')]
   \<and> returned (retrieve_brand_context (demo_rag empty_client) (\<lambda>i. 0)
      (Some (ascii ''brandA'')) (ascii ''q'') 3 True) = Some get_default_examples"
proof -
  let ?d = "\<lparr>client = Some demo_client\<rparr>"
  let ?e = "\<lparr>client = Some empty_client\<rparr>"
  have h1: "db (demo_rag demo_client) = Some ?d" "db (demo_rag empty_client) = Some ?e"
    by (simp_all add: demo_rag_def)
  have h2: "is_connected ?d" "is_connected ?e"
    by (simp_all add: is_connected_def)
  have h3: "\<And>cl. returned (create_embedding (demo_rag cl) (\<lambda>i. 0) (ascii ''q'')) = Some [1 / 2]"
    by (simp add: create_embedding_def demo_rag_def io_defs returned_def)
  have h4: "[row_of ''b1'', row_of ''b2'']
          = (if truthy (Some (ascii ''brandA''))
             then rows_of (semantic_search ?d [1 / 2] (Some (ascii ''brandA'')) 3 (1 / 2)) else [])"
    by (simp add: truthy_def rows_of_def semantic_search_def demo_client_def io_defs returned_def
          ascii_def)
  have h5: "[row_of ''p1'']
          = (if True \<and> int (length [row_of ''b1'', row_of ''b2'']) < 3
             then rows_of (semantic_search ?d [1 / 2] None (3 - int (length [row_of ''b1'', row_of ''b2''])) (1 / 2))
             else [])"
    by (simp add: rows_of_def semantic_search_def demo_client_def io_defs returned_def)
  have h6: "[]
          = (if truthy (Some (ascii ''brandA''))
             then rows_of (semantic_search ?e [1 / 2] (Some (ascii ''brandA'')) 3 (1 / 2)) else [])"
    by (simp add: truthy_def rows_of_def semantic_search_def empty_client_def io_defs returned_def
          ascii_def)
  have h7: "[]
          = (if True \<and> int (length ([] :: pydict list)) < 3
             then rows_of (semantic_search ?e [1 / 2] None (3 - int (length ([] :: pydict list))) (1 / 2))
             else [])"
    by (simp add: rows_of_def semantic_search_def empty_client_def io_defs returned_def)
  from retrieve_merge_order [OF h1(1) h2(1) h3 h4 h5]
       retrieve_merge_order [OF h1(2) h2(2) h3 h6 h7]
  show ?thesis
    by (simp add: has_content_def content_of_def row_of_def)
qed

text \<open>
  C3. When the store is unavailable (\<open>db\<close> is \<open>None\<close>, or its client is), retrieval returns
  the list of default examples, all three of them whatever \<open>top_k\<close> is, and calls neither
  the embedder nor any search.
\<close>

theorem retrieve_unavailable_store:
  assumes "db self = None \<or> (\<exists>d. db self = Some d \<and> client d = None)"
  shows "retrieve_brand_context self rnd brand_id query top_k include_platform
           = ([], Inr get_default_examples)
         \<and> length get_default_examples = 3"
  using assms
  by (auto simp: retrieve_brand_context_def is_connected_def return_io_def
                 get_default_examples_def)

theorem retrieve_unavailable_store_witness:
  "retrieve_brand_context \<lparr>embedder = None, db = None\<rparr> (\<lambda>i. 0) (Some (ascii ''brandA''))
      (ascii ''q'') 1 True = ([], Inr get_default_examples)
   \<and> retrieve_brand_context \<lparr>embedder = None, db = Some \<lparr>client = None\<rparr>\<rparr> (\<lambda>i. 0)
      (Some (ascii ''brandA'')) (ascii ''q'') 1 True = ([], Inr get_default_examples)
   \<and> length get_default_examples = 3"
  using retrieve_unavailable_store [of "\<lparr>embedder = None, db = None\<rparr>" "\<lambda>i. 0"
          "Some (ascii ''brandA'')" "ascii ''q''" 1 True]
        retrieve_unavailable_store [of "\<lparr>embedder = None, db = Some \<lparr>client = None\<rparr>\<rparr>" "\<lambda>i. 0"
          "Some (ascii ''brandA'')" "ascii ''q''" 1 True]
  by simp

text \<open>
  C6 as stated does not hold in one part: the value returned in degraded mode carries no
  marker. \<open>create_embedding\<close> returns a bare list of numbers, and the list returned without
  an embedder can be the very list a loaded embedder returns.
\<close>

theorem create_embedding_flag_counterexample:
  "embedder \<lparr>embedder = None, db = None\<rparr> = None
   \<and> returned (create_embedding \<lparr>embedder = None, db = None\<rparr> (\<lambda>i. 1 / 2) (ascii ''hi''))
     = returned (create_embedding \<lparr>embedder = Some (\<lambda>t. Inr (replicate 384 (1 / 2))), db = None\<rparr>
         (\<lambda>i. 1 / 2) (ascii ''hi''))"
  by (simp add: create_embedding_def io_defs returned_def np_random_rand_def map_replicate_const)

text \<open>
  C6, amended. Without an embedder, \<open>create_embedding\<close> returns a list of exactly 384
  random numbers and calls only the random generator; when the embedder raises during a
  call the same fallback is returned; the function always returns. The returned value is
  the bare list.
\<close>

theorem create_embedding_fallback:
  "(embedder self = None \<longrightarrow>
      create_embedding self rnd txt = ([RandCall 384], Inr (np_random_rand rnd 384)))
   \<and> (\<forall>enc e. embedder self = Some enc \<and> enc txt = Inl e \<longrightarrow>
        returned (create_embedding self rnd txt) = Some (np_random_rand rnd 384))
   \<and> length (np_random_rand rnd 384) = 384
   \<and> (\<exists>v. returned (create_embedding self rnd txt) = Some v)"
  by (auto simp: create_embedding_def io_defs returned_def np_random_rand_def
           split: option.splits sum.splits)

theorem create_embedding_fallback_witness:
  "create_embedding \<lparr>embedder = None, db = None\<rparr> (\<lambda>i. 1 / 2) (ascii ''hi'')
     = ([RandCall 384], Inr (np_random_rand (\<lambda>i. 1 / 2) 384))
   \<and> returned (create_embedding \<lparr>embedder = Some (\<lambda>t. Inl (RemoteError (ascii ''oom''))), db = None\<rparr>
        (\<lambda>i. 1 / 2) (ascii ''hi'')) = Some (np_random_rand (\<lambda>i. 1 / 2) 384)
   \<and> length (np_random_rand (\<lambda>i. 1 / 2 :: real) 384) = 384"
  using create_embedding_fallback [of "\<lparr>embedder = None, db = None\<rparr>" "\<lambda>i. 1 / 2" "ascii ''hi''"]
        create_embedding_fallback [of "\<lparr>embedder = Some (\<lambda>t. Inl (RemoteError (ascii ''oom''))), db = None\<rparr>"
           "\<lambda>i. 1 / 2" "ascii ''hi''"]
  by simp

subsection \<open>Chunking: the loop and its specification\<close>

lemma flush_eq:
  "flush chunks cur = chunks @ filter (\<lambda>c. c \<noteq> []) [replace_nul (strip cur)]"
  by (simp add: flush_def Let_def replace_nul_def)

lemma buffer_text_snoc: "buffer_text (buf @ [p]) = buffer_text buf @ p @ [10, 10]"
  by (simp add: buffer_text_def)

lemma buffer_text_single: "buffer_text [p] = p @ [10, 10]"
  by (simp add: buffer_text_def)

lemma chunk_loop_spec:
  "(case chunk_loop ps (chunks, buffer_text buf) of (cs, cur) \<Rightarrow> flush cs cur)
     = chunks @ filter (\<lambda>c. c \<noteq> [])
         (map (\<lambda>b. replace_nul (strip (buffer_text b)))
            (spec_accumulate 500 buf (filter (\<lambda>p. p \<noteq> []) (map strip ps))))"
proof (induction ps arbitrary: chunks buf)
  case Nil
  show ?case by (simp add: flush_eq)
next
  case (Cons para ps)
  show ?case
  proof (cases "strip para = []")
    case True
    then show ?thesis using Cons.IH [of chunks buf] by simp
  next
    case False
    show ?thesis
    proof (cases "length (buffer_text buf) + length (strip para) < 500")
      case True
      with False Cons.IH [of chunks "buf @ [strip para]"] show ?thesis
        by (simp add: buffer_text_snoc Let_def)
    next
      case ge: False
      with False Cons.IH [of "flush chunks (buffer_text buf)" "[strip para]"] show ?thesis
        by (simp add: buffer_text_single Let_def flush_eq)
    qed
  qed
qed

lemma chunk_text_eq_spec: "chunk_text txt = chunk_spec 500 txt"
  using chunk_loop_spec [of "split_nn txt" "[]" "[]"]
  by (simp add: chunk_text_def chunk_spec_def paragraphs_of_def buffer_text_def)

subsection \<open>Stripping\<close>

lemma isspace_10 [simp]: "isspace 10"
  by (simp add: isspace_def)

lemma not_isspace_0 [simp]: "\<not> isspace 0"
  by (simp add: isspace_def)

lemma strip_Nil [simp]: "strip [] = []"
  by (simp add: strip_def)

lemma strip_tidy: "tidy s \<Longrightarrow> strip s = s"
proof -
  assume t: "tidy s"
  then have a: "dropWhile isspace s = s"
    by (cases s) (auto simp: tidy_def)
  from t have "rev s \<noteq> []" "\<not> isspace (hd (rev s))"
    by (auto simp: tidy_def hd_rev)
  then have "dropWhile isspace (rev s) = rev s"
    by (cases "rev s") auto
  with a show ?thesis by (simp add: strip_def)
qed

lemma tidy_strip: "strip s \<noteq> [] \<Longrightarrow> tidy (strip s)"
proof -
  assume ne: "strip s \<noteq> []"
  let ?d = "dropWhile isspace s"
  let ?r = "dropWhile isspace (rev ?d)"
  from ne have r: "?r \<noteq> []" by (simp add: strip_def)
  then have hr: "\<not> isspace (hd ?r)"
    by (metis hd_dropWhile)
  have d: "?d \<noteq> []"
  proof
    assume "?d = []"
    then have "?r = []" by (simp only: rev.simps dropWhile.simps)
    with r show False by contradiction
  qed
  then have hd: "\<not> isspace (hd ?d)"
    by (metis hd_dropWhile)
  have l: "last (strip s) = hd ?r"
    using r by (simp add: strip_def last_rev)
  obtain x where x: "x \<in> set (rev ?d)" "\<not> isspace x"
    using r by auto
  have "hd (strip s) = last ?r"
    using r by (simp add: strip_def hd_rev)
  also have "\<dots> = last (rev ?d)"
    using x by (rule dropWhile_last)
  also have "\<dots> = hd ?d"
    using d by (simp add: last_rev)
  finally have h: "hd (strip s) = hd ?d" .
  show ?thesis
    using ne hd hr h l by (simp add: tidy_def)
qed

lemma strip_decompose: "\<exists>a b. s = a @ strip s @ b"
proof -
  let ?d = "dropWhile isspace s"
  have "rev ?d = takeWhile isspace (rev ?d) @ dropWhile isspace (rev ?d)"
    by simp
  then have "?d = strip s @ rev (takeWhile isspace (rev ?d))"
    unfolding strip_def by (metis rev_append rev_rev_ident)
  then have "s = takeWhile isspace s @ strip s @ rev (takeWhile isspace (rev ?d))"
    by (metis takeWhile_dropWhile_id)
  then show ?thesis by blast
qed

lemma set_strip: "set (strip s) \<subseteq> set s"
proof -
  obtain a b where "s = a @ strip s @ b"
    using strip_decompose by blast
  then have "set s = set a \<union> set (strip s) \<union> set b"
    by (metis set_append sup_assoc)
  then show ?thesis by blast
qed

lemma strip_append_nn: "tidy s \<Longrightarrow> strip (s @ [10, 10]) = s"
proof -
  assume t: "tidy s"
  then have a: "dropWhile isspace (s @ [10, 10]) = s @ [10, 10]"
    by (cases s) (auto simp: tidy_def)
  from t have "rev s \<noteq> []" "\<not> isspace (hd (rev s))"
    by (auto simp: tidy_def hd_rev)
  then have "dropWhile isspace (rev s) = rev s"
    by (cases "rev s") auto
  with a show ?thesis by (simp add: strip_def)
qed

lemma replace_nul_id: "0 \<notin> set s \<Longrightarrow> replace_nul s = s"
  by (induction s) (auto simp: replace_nul_def)

lemma no_nul_replace_nul: "0 \<notin> set (replace_nul s)"
  by (simp add: replace_nul_def)

subsection \<open>Splitting and joining at blank lines\<close>

lemma has_nn_append_right: "has_nn b \<Longrightarrow> has_nn (a @ b)"
proof (induction a)
  case Nil
  then show ?case by simp
next
  case (Cons x a)
  then have "has_nn (a @ b)" by simp
  then show ?case by (cases "a @ b") auto
qed

lemma has_nn_append_left: "has_nn a \<Longrightarrow> has_nn (a @ b)"
  by (induction a rule: has_nn.induct) auto

lemma split_nn_not_Nil [simp]: "split_nn t \<noteq> []"
  by (induction t rule: split_nn.induct) auto

lemma split_nn_plain: "\<not> has_nn p \<Longrightarrow> split_nn p = [p]"
  by (induction p rule: split_nn.induct) auto

lemma split_nn_first:
  "\<not> has_nn p \<Longrightarrow> p = [] \<or> last p \<noteq> 10 \<Longrightarrow>
   split_nn (p @ 10 # 10 # rest) = p # split_nn rest"
proof (induction p rule: split_nn.induct)
  case 1
  show ?case by simp
next
  case (2 c)
  then show ?case by simp
next
  case (3 c d cs)
  from "3.prems" have n: "\<not> (c = 10 \<and> d = 10)" and h: "\<not> has_nn (d # cs)"
    by auto
  from "3.prems" have l: "d # cs = [] \<or> last (d # cs) \<noteq> 10"
    by simp
  from "3.IH"(2) [OF n h l] n show ?case
    by simp
qed

lemma split_nn_no_nn: "p \<in> set (split_nn t) \<Longrightarrow> \<not> has_nn p"
proof (induction t arbitrary: p rule: split_nn.induct)
  case 1
  then show ?case by simp
next
  case (2 c)
  then show ?case by simp
next
  case (3 c d cs)
  show ?case
  proof (cases "c = 10 \<and> d = 10")
    case True
    with "3.prems" "3.IH"(1) show ?thesis by auto
  next
    case False
    let ?r = "split_nn (d # cs)"
    have r: "?r = hd ?r # tl ?r" by simp
    from False "3.prems" have "p = c # hd ?r \<or> p \<in> set (tl ?r)"
      by auto
    then show ?thesis
    proof
      assume "p \<in> set (tl ?r)"
      then have "p \<in> set ?r" by (metis r list.set_intros(2))
      with "3.IH"(2) [OF False] show ?thesis by blast
    next
      assume p: "p = c # hd ?r"
      have "hd ?r \<in> set ?r" by (metis r list.set_intros(1))
      with "3.IH"(2) [OF False] have h: "\<not> has_nn (hd ?r)" by blast
      have "hd ?r = [] \<or> hd (hd ?r) = d"
        by (cases cs) auto
      with h False p show ?thesis
        by (cases "hd ?r") auto
    qed
  qed
qed

lemma split_nn_chars: "p \<in> set (split_nn t) \<Longrightarrow> set p \<subseteq> set t"
proof (induction t arbitrary: p rule: split_nn.induct)
  case 1
  then show ?case by simp
next
  case (2 c)
  then show ?case by simp
next
  case (3 c d cs)
  show ?case
  proof (cases "c = 10 \<and> d = 10")
    case True
    with "3.prems" "3.IH"(1) show ?thesis by auto
  next
    case False
    let ?r = "split_nn (d # cs)"
    have r: "?r = hd ?r # tl ?r" by simp
    from False "3.prems" have "p = c # hd ?r \<or> p \<in> set (tl ?r)"
      by auto
    then show ?thesis
    proof
      assume "p \<in> set (tl ?r)"
      then have "p \<in> set ?r" by (metis r list.set_intros(2))
      with "3.IH"(2) [OF False] show ?thesis by auto
    next
      assume p: "p = c # hd ?r"
      have "hd ?r \<in> set ?r" by (metis r list.set_intros(1))
      with "3.IH"(2) [OF False] have "set (hd ?r) \<subseteq> set (d # cs)" by blast
      with p show ?thesis by auto
    qed
  qed
qed

lemma join_nn_append:
  "a \<noteq> [] \<Longrightarrow> b \<noteq> [] \<Longrightarrow> join_nn (a @ b) = join_nn a @ [10, 10] @ join_nn b"
proof (induction a rule: join_nn.induct)
  case 1
  then show ?case by simp
next
  case (2 c)
  then show ?case by (cases b) auto
next
  case (3 c d cs)
  then show ?case by simp
qed

lemma buffer_text_join: "g \<noteq> [] \<Longrightarrow> buffer_text g = join_nn g @ [10, 10]"
  by (induction g rule: join_nn.induct) (auto simp: buffer_text_def)

lemma join_nn_tidy:
  "g \<noteq> [] \<Longrightarrow> \<forall>p\<in>set g. tidy p \<Longrightarrow> tidy (join_nn g)"
proof (induction g rule: join_nn.induct)
  case 1
  then show ?case by simp
next
  case (2 c)
  then show ?case by simp
next
  case (3 c d cs)
  then have "tidy (join_nn (d # cs))" and "tidy c" by auto
  then show ?case by (auto simp: tidy_def)
qed

lemma set_join_nn: "set (join_nn g) \<subseteq> insert 10 (\<Union> (set ` set g))"
  by (induction g rule: join_nn.induct) auto

lemma split_join:
  "g \<noteq> [] \<Longrightarrow> \<forall>p\<in>set g. tidy p \<and> \<not> has_nn p \<Longrightarrow> split_nn (join_nn g) = g"
proof (induction g rule: join_nn.induct)
  case 1
  then show ?case by simp
next
  case (2 c)
  then show ?case by (simp add: split_nn_plain)
next
  case (3 c d cs)
  then have c: "\<not> has_nn c" "last c \<noteq> 10"
    by (auto simp: tidy_def)
  from 3 have "split_nn (join_nn (d # cs)) = d # cs" by simp
  with split_nn_first [of c "join_nn (d # cs)"] c show ?case by simp
qed

subsection \<open>Paragraphs, groups and chunks\<close>

lemma paragraphs_of_good:
  assumes "p \<in> set (paragraphs_of t)"
  shows "tidy p \<and> \<not> has_nn p \<and> set p \<subseteq> set t"
proof -
  from assms obtain q where q: "q \<in> set (split_nn t)" and p: "p = strip q" and ne: "strip q \<noteq> []"
    by (auto simp: paragraphs_of_def)
  obtain a b where d: "q = a @ strip q @ b"
    using strip_decompose by blast
  have "\<not> has_nn (strip q)"
  proof
    assume "has_nn (strip q)"
    then have "has_nn (strip q @ b)" by (rule has_nn_append_left)
    then have "has_nn (a @ strip q @ b)" by (rule has_nn_append_right)
    with d split_nn_no_nn [OF q] show False by simp
  qed
  moreover have "set (strip q) \<subseteq> set t"
    using set_strip [of q] split_nn_chars [OF q] by blast
  ultimately show ?thesis
    using tidy_strip [OF ne] p by simp
qed

lemma concat_spec_accumulate: "concat (spec_accumulate m buf ps) = buf @ ps"
  by (induction ps arbitrary: buf) auto

lemma set_spec_accumulate:
  "g \<in> set (spec_accumulate m buf ps) \<Longrightarrow> set g \<subseteq> set buf \<union> set ps"
proof (induction ps arbitrary: buf)
  case Nil
  then show ?case by simp
next
  case (Cons a ps)
  show ?case
  proof (cases "m \<le> length (buffer_text buf) + length a")
    case True
    with Cons.prems have "g = buf \<or> g \<in> set (spec_accumulate m [a] ps)"
      by simp
    then show ?thesis
      using Cons.IH [of "[a]"] by auto
  next
    case False
    with Cons.prems have "g \<in> set (spec_accumulate m (buf @ [a]) ps)"
      by simp
    then show ?thesis
      using Cons.IH [of "buf @ [a]"] by auto
  qed
qed

lemma render_group:
  assumes "\<forall>p\<in>set g. tidy p \<and> 0 \<notin> set p"
  shows "replace_nul (strip (buffer_text g)) = join_nn g \<and> (join_nn g = [] \<longleftrightarrow> g = [])"
proof (cases "g = []")
  case True
  then show ?thesis by (simp add: buffer_text_def replace_nul_def)
next
  case False
  with assms have t: "tidy (join_nn g)"
    by (simp add: join_nn_tidy)
  have "0 \<notin> set (join_nn g)"
    using set_join_nn [of g] assms by auto
  then show ?thesis
    using False t by (simp add: buffer_text_join strip_append_nn replace_nul_id tidy_def)
qed

lemma chunk_text_groups:
  assumes "0 \<notin> set t"
  shows "chunk_text t
    = map join_nn (filter (\<lambda>g. g \<noteq> []) (spec_accumulate 500 [] (paragraphs_of t)))"
proof -
  let ?G = "spec_accumulate 500 [] (paragraphs_of t)"
  have g: "replace_nul (strip (buffer_text g)) = join_nn g \<and> (join_nn g = [] \<longleftrightarrow> g = [])"
    if "g \<in> set ?G" for g
  proof (rule render_group, rule ballI)
    fix p assume "p \<in> set g"
    with set_spec_accumulate [OF that] have "p \<in> set (paragraphs_of t)" by auto
    from paragraphs_of_good [OF this] assms show "tidy p \<and> 0 \<notin> set p" by auto
  qed
  have "filter (\<lambda>c. c \<noteq> []) (map (\<lambda>buf. replace_nul (strip (buffer_text buf))) ?G)
      = filter (\<lambda>c. c \<noteq> []) (map join_nn ?G)"
    using g by (simp cong: map_cong)
  also have "\<dots> = map join_nn (filter (\<lambda>g. join_nn g \<noteq> []) ?G)"
    by (simp add: filter_map comp_def)
  also have "\<dots> = map join_nn (filter (\<lambda>g. g \<noteq> []) ?G)"
    using g by (simp cong: filter_cong)
  finally show ?thesis
    by (simp add: chunk_text_eq_spec chunk_spec_def)
qed

lemma join_nn_groups:
  "\<forall>g\<in>set gs. g \<noteq> [] \<Longrightarrow> join_nn (map join_nn gs) = join_nn (concat gs)"
proof (induction gs)
  case Nil
  show ?case by simp
next
  case (Cons g gs)
  show ?case
  proof (cases gs)
    case Nil
    then show ?thesis by simp
  next
    case (Cons h hs)
    with Cons.prems have "concat gs \<noteq> []" by simp
    with Cons.prems Cons.IH Cons show ?thesis
      by (simp add: join_nn_append)
  qed
qed

lemma concat_filter_nonempty: "concat (filter (\<lambda>g. g \<noteq> []) gs) = concat gs"
  by (induction gs) auto

lemma join_chunk_text:
  assumes "0 \<notin> set t"
  shows "join_nn (chunk_text t) = join_nn (paragraphs_of t)"
proof -
  let ?G = "filter (\<lambda>g. g \<noteq> []) (spec_accumulate 500 [] (paragraphs_of t))"
  have "join_nn (map join_nn ?G) = join_nn (concat ?G)"
    by (rule join_nn_groups) simp
  then show ?thesis
    by (simp add: chunk_text_groups [OF assms] concat_filter_nonempty concat_spec_accumulate)
qed

lemma paragraphs_of_join:
  assumes "\<forall>p\<in>set ps. tidy p \<and> \<not> has_nn p"
  shows "paragraphs_of (join_nn ps) = ps"
proof (cases "ps = []")
  case True
  then show ?thesis by (simp add: paragraphs_of_def)
next
  case False
  from assms have "map strip ps = ps"
    by (simp add: strip_tidy map_idI)
  moreover from assms have "filter (\<lambda>p. p \<noteq> []) ps = ps"
    by (auto simp: tidy_def filter_id_conv)
  ultimately show ?thesis
    using split_join [OF False assms] by (simp add: paragraphs_of_def)
qed

lemma rechunk_same:
  assumes "0 \<notin> set t"
  shows "chunk_text (join_nn (chunk_text t)) = chunk_text t"
proof -
  have p: "paragraphs_of (join_nn (paragraphs_of t)) = paragraphs_of t"
    by (rule paragraphs_of_join) (simp add: paragraphs_of_good)
  have "chunk_text (join_nn (chunk_text t)) = chunk_text (join_nn (paragraphs_of t))"
    by (simp only: join_chunk_text [OF assms])
  also have "\<dots> = chunk_text t"
    by (simp add: chunk_text_eq_spec chunk_spec_def p)
  finally show ?thesis .
qed

lemma pages_loop_no_nul: "0 \<notin> set acc \<Longrightarrow> 0 \<notin> set (pages_loop pages acc)"
  by (induction pages arbitrary: acc) (auto simp: replace_nul_def split: option.splits)

lemma extract_full_text_no_nul: "0 \<notin> set (extract_full_text pages)"
  by (simp add: extract_full_text_def pages_loop_no_nul)

lemma chunk_text_clean:
  assumes "c \<in> set (chunk_text t)"
  shows "c \<noteq> [] \<and> 0 \<notin> set c"
  using assms no_nul_replace_nul
  by (auto simp: chunk_text_eq_spec chunk_spec_def)

lemma chunk_text_tidy:
  assumes "c \<in> set (chunk_text t)" and "0 \<notin> set t"
  shows "tidy c"
proof -
  from assms obtain g where g: "g \<in> set (spec_accumulate 500 [] (paragraphs_of t))"
      "g \<noteq> []" "c = join_nn g"
    by (auto simp: chunk_text_groups)
  have "\<forall>p\<in>set g. tidy p"
    using set_spec_accumulate [OF g(1)] paragraphs_of_good by auto
  with g show ?thesis by (simp add: join_nn_tidy)
qed

lemma no_lf_no_nn: "10 \<notin> set p \<Longrightarrow> \<not> has_nn p"
  by (induction p rule: has_nn.induct) auto


subsection \<open>Chunking: the properties\<close>


text \<open>
  C5. Every chunk produced is non-empty and contains no null character; a flushed buffer
  that is empty after stripping is dropped, not emitted. When the text has no null
  character, as the text of a document never has, every chunk is moreover free of
  leading and trailing whitespace.
\<close>

theorem chunks_nonempty_no_nul:
  assumes "c \<in> set (chunk_text txt)"
  shows "c \<noteq> [] \<and> 0 \<notin> set c
       \<and> (0 \<notin> set txt \<longrightarrow> strip c = c)
       \<and> (txt = extract_full_text pages \<longrightarrow> strip c = c)
       \<and> flush chunks buf
           = (if replace_nul (strip buf) = [] then chunks
              else chunks @ [replace_nul (strip buf)])"
proof -
  have "strip c = c" if "0 \<notin> set txt"
    using chunk_text_tidy [OF assms that] by (rule strip_tidy)
  then show ?thesis
    using chunk_text_clean [OF assms] extract_full_text_no_nul [of pages]
    by (auto simp: flush_eq)
qed

lemma chunk_text_small:
  "chunk_text [97, 10, 10, 32, 98, 32] = [[97, 10, 10, 98]]"
  by code_simp

theorem chunks_nonempty_no_nul_witness:
  "[97, 10, 10, 98] \<in> set (chunk_text [97, 10, 10, 32, 98, 32])
   \<and> [97 :: nat, 10, 10, 98] \<noteq> [] \<and> 0 \<notin> set [97 :: nat, 10, 10, 98]
   \<and> strip [97, 10, 10, 98] = [97, 10, 10, 98]"
proof -
  have h: "[97, 10, 10, 98] \<in> set (chunk_text [97, 10, 10, 32, 98, 32])"
    by (simp add: chunk_text_small)
  from chunks_nonempty_no_nul [OF h, of "[]" "[]" "[]"] h show ?thesis
    by simp
qed

text \<open>
  C9. Chunking again the chunks joined by blank lines gives the same chunks, exactly:
  for every text without a null character, and so for the text of every document (the
  handler removes the null characters of each page before chunking).
\<close>

theorem rechunk_idempotent:
  "(0 \<notin> set txt \<longrightarrow> chunk_text (join_nn (chunk_text txt)) = chunk_text txt)
   \<and> chunk_text (join_nn (chunk_text (extract_full_text pages)))
       = chunk_text (extract_full_text pages)"
  using rechunk_same extract_full_text_no_nul by blast

theorem rechunk_idempotent_witness:
  "0 \<notin> set [97 :: nat, 10, 10, 32, 98, 32]
   \<and> chunk_text (join_nn (chunk_text [97, 10, 10, 32, 98, 32]))
       = chunk_text [97, 10, 10, 32, 98, 32]
   \<and> chunk_text (join_nn (chunk_text [97, 10, 10, 32, 98, 32])) = [[97, 10, 10, 98]]"
  using rechunk_idempotent [of "[97, 10, 10, 32, 98, 32]" "[]"]
  by (simp add: chunk_text_small)

text \<open>
  The loop taken alone, on a text that does contain null characters, can group
  differently the second time: the size test counts the null characters that the flush
  then removes. Here a paragraph of 498 null characters and one letter is too long to
  join the first chunk, and short enough once the null characters are gone.
\<close>

lemma chunk_text_nul_regroups:
  "chunk_text (97 # 10 # 10 # replicate 498 0 @ [98]) = [[97], [98]]
   \<and> chunk_text (join_nn [[97], [98]]) = [[97, 10, 10, 98]]"
proof -
  let ?q = "replicate 498 (0 :: nat) @ [98]"
  have tq: "tidy ?q" and ta: "tidy [97]"
    by (simp_all add: tidy_def isspace_def)
  have "\<not> has_nn ?q"
    by (rule no_lf_no_nn) simp
  then have "split_nn ?q = [?q]"
    by (rule split_nn_plain)
  moreover have "split_nn ([97] @ 10 # 10 # ?q) = [97] # split_nn ?q"
    by (rule split_nn_first) simp_all
  ultimately have s: "split_nn (97 # 10 # 10 # ?q) = [[97], ?q]"
    by (simp del: split_nn.simps)
  have p: "paragraphs_of (97 # 10 # 10 # ?q) = [[97], ?q]"
    unfolding paragraphs_of_def s
    using tq ta strip_tidy [OF tq] strip_tidy [OF ta]
    by (simp add: tidy_def)
  have r: "replace_nul ?q = [98]"
    by (simp add: replace_nul_def)
  have "chunk_text (97 # 10 # 10 # ?q) = [[97], [98]]"
    using strip_append_nn [OF tq] strip_append_nn [OF ta] r
    by (simp add: chunk_text_eq_spec chunk_spec_def p buffer_text_def replace_nul_def)
  moreover have "chunk_text (join_nn [[97], [98]]) = [[97, 10, 10, 98]]"
    by code_simp
  ultimately show ?thesis by simp
qed

end
